theory Spec2Isabelle
  imports Main "HOL-Library.Word"
begin

unbundle bit_operations_syntax

section \<open>The monitor command-line interface of z80ctrl (cli.c)\<close>

text \<open>
  The program is built with avr-gcc for the ATmega1284P (see the Makefile: \<open>MCU=atmega1284p\<close>,
  \<open>F_CPU=20000000L\<close>). On that target \<open>int\<close> and \<open>unsigned int\<close> are 16 bits wide and
  \<open>uint16_t\<close> is \<open>unsigned int\<close>: an expression over \<open>uint16_t\<close> operands such as
  \<open>end - start + 1\<close> is not promoted to a wider type and is computed modulo \<open>2 ^ 16\<close>.
  \<open>uint32_t\<close> and \<open>unsigned long\<close> are 32 bits wide. The definitions below follow these
  widths: \<open>u16\<close> arithmetic wraps at \<open>2 ^ 16\<close>, \<open>u32\<close> arithmetic at \<open>2 ^ 32\<close>.
\<close>

type_synonym u8 = "8 word"
type_synonym u16 = "16 word"
type_synonym u32 = "32 word"

subsection \<open>Result codes and console output\<close>

text \<open>
  Modelled from the spec: \<open>FRESULT\<close> is declared in ff.h, which is not among the sources; the
  spec (6) calls it a small closed set of result codes. cli.c names two of them, \<open>FR_OK\<close> and
  \<open>FR_NO_FILE\<close>; every other code is \<open>FR_ERR n\<close>.
\<close>

datatype FRESULT = FR_OK | FR_NO_FILE | FR_ERR nat

text \<open>
  What a handler prints, one constructor for each \<open>printf_P\<close> format the handlers below use;
  the arguments are the values passed to \<open>printf_P\<close>.
\<close>

datatype msg =
    Usage string
  | Text string
  | Open_error FRESULT
  | Close_error FRESULT
  | Write_error FRESULT
  | Echo string string
  | Mismatch u32 u8 u8
  | Dump_header u16 u16
  | Dump_row u32 "u8 list" string
  | Poke_prompt u16 u8
  | Baud_report u8 u32 u32

subsection \<open>Memory targets\<close>

type_synonym memory = "u16 \<Rightarrow> u8"

record machine =
  bus :: memory
  vram :: memory
  console :: "msg list"

definition say :: "msg \<Rightarrow> machine \<Rightarrow> machine" where
  "say m s = s\<lparr>console := console s @ [m]\<rparr>"

text \<open>
  Modelled from the spec: \<open>write_mem\<close>, \<open>tms_write\<close>, \<open>read_mem\<close> and \<open>tms_read\<close> are declared in
  bus.h and tms.h, which are not among the sources. The spec (4.1) gives their contract:
  a write stores \<open>len\<close> bytes of the buffer starting at \<open>addr\<close>, a read returns the \<open>len\<close> bytes
  starting at \<open>addr\<close>, and addresses wrap modulo \<open>2 ^ 16\<close>. A write whose length exceeds the
  caller's buffer reads past the end of that buffer, which C leaves undefined: the model
  returns \<open>None\<close> there.
\<close>

definition store_bytes :: "memory \<Rightarrow> u16 \<Rightarrow> u8 list \<Rightarrow> memory" where
  "store_bytes m addr bs = fold (\<lambda>k m'. m'(addr + of_nat k := bs ! k)) [0..<length bs] m"

definition load_bytes :: "memory \<Rightarrow> u16 \<Rightarrow> nat \<Rightarrow> u8 list" where
  "load_bytes m addr n = map (\<lambda>k. m (addr + of_nat k)) [0..<n]"

definition write_mem :: "u16 \<Rightarrow> u8 list \<Rightarrow> u16 \<Rightarrow> machine \<Rightarrow> machine option" where
  "write_mem addr buf len s =
     (if unat len \<le> length buf
      then Some (s\<lparr>bus := store_bytes (bus s) addr (take (unat len) buf)\<rparr>)
      else None)"

definition tms_write :: "u16 \<Rightarrow> u8 list \<Rightarrow> u16 \<Rightarrow> machine \<Rightarrow> machine option" where
  "tms_write addr buf len s =
     (if unat len \<le> length buf
      then Some (s\<lparr>vram := store_bytes (vram s) addr (take (unat len) buf)\<rparr>)
      else None)"

definition read_mem :: "machine \<Rightarrow> u16 \<Rightarrow> u16 \<Rightarrow> u8 list" where
  "read_mem s addr len = load_bytes (bus s) addr (unat len)"

definition tms_read :: "machine \<Rightarrow> u16 \<Rightarrow> u16 \<Rightarrow> u8 list" where
  "tms_read s addr len = load_bytes (vram s) addr (unat len)"

text \<open>
  A call of one of the two write functions, as the command issues it: the address and the
  length argument. The buffer argument is the command's one pattern buffer in every call.
\<close>

datatype call = Write_mem u16 u16 | Tms_write u16 u16

fun call_len :: "call \<Rightarrow> nat" where
  "call_len (Write_mem addr len) = unat len"
| "call_len (Tms_write addr len) = unat len"

fun do_call :: "u8 list \<Rightarrow> call \<Rightarrow> machine \<Rightarrow> machine option" where
  "do_call buf (Write_mem addr len) s = write_mem addr buf len s"
| "do_call buf (Tms_write addr len) s = tms_write addr buf len s"

fun run_calls :: "u8 list \<Rightarrow> call list \<Rightarrow> machine \<Rightarrow> machine option" where
  "run_calls buf [] s = Some s"
| "run_calls buf (c # cs) s =
     (case do_call buf c s of None \<Rightarrow> None | Some s' \<Rightarrow> run_calls buf cs s')"

subsection \<open>Argument parsing\<close>

text \<open>
  \<open>strtoul\<close> belongs to the C library. The command handlers take it as a parameter (one
  function for base 16, one for base 10). For evaluating a handler on a concrete command
  line, \<open>hex\<close> and \<open>dec\<close> give the value of a string of plain digits, which is what
  \<open>strtoul\<close> returns for such a string while the value fits 32 bits.
\<close>

definition digit_val :: "char \<Rightarrow> nat" where
  "digit_val c =
     (let n = (of_char c :: nat) in
      if 48 \<le> n \<and> n \<le> 57 then n - 48
      else if 97 \<le> n \<and> n \<le> 102 then n - 87
      else n - 55)"

definition hex :: "string \<Rightarrow> u32" where
  "hex s = of_nat (foldl (\<lambda>acc c. 16 * acc + digit_val c) 0 s)"

definition dec :: "string \<Rightarrow> u32" where
  "dec s = of_nat (foldl (\<lambda>acc c. 10 * acc + digit_val c) 0 s)"

subsection \<open>fill and tmsfill (\<open>cli_fill\<close>)\<close>

text \<open>
  The three initialisation loops of the pattern buffer \<open>buf[256]\<close>: ascending, descending,
  or one byte value.
\<close>

definition fill_buf :: "(string \<Rightarrow> u32) \<Rightarrow> string \<Rightarrow> u8 list" where
  "fill_buf strtoul16 arg =
     (if arg = ''asc'' then map (\<lambda>i. of_nat i) [0..<256]
      else if arg = ''desc'' then map (\<lambda>i. 255 - of_nat i) [0..<256]
      else (let v = (ucast (strtoul16 arg AND 0xff) :: u8) in map (\<lambda>i. v) [0..<256]))"

text \<open>
  The \<open>for (;;)\<close> loop of \<open>cli_fill\<close>. In the final branch the source reads
  \<^verbatim>\<open>if (tms) tms_write(...); write_mem(...); break;\<close>
  so the call of \<open>write_mem\<close> is not guarded by the \<open>if\<close>.
\<close>

function fill_loop :: "bool \<Rightarrow> u16 \<Rightarrow> u16 \<Rightarrow> call list" where
  "fill_loop tms start end =
     (if end - start > 256 then
        (if tms then Tms_write start 256 else Write_mem start 256)
          # fill_loop tms (start + 256) end
      else
        (if tms then [Tms_write start (end - start + 1)] else [])
          @ [Write_mem start (end - start + 1)])"
  by pat_completeness auto
termination
proof (relation "measure (\<lambda>(tms, start, end). unat (end - start))")
  show "wf (measure (\<lambda>(tms, start, end). unat (end - start)))"
    by simp
next
  fix tms :: bool and start "end" :: u16
  assume a: "256 < end - start"
  have e: "end - (start + 256) = (end - start) - 256"
    by simp
  have "unat ((end - start) - 256) < unat (end - start)"
    using a by (simp add: word_less_nat_alt word_le_nat_alt unat_sub)
  then have "unat (end - (start + 256)) < unat (end - start)"
    by (simp only: e)
  then show "((tms, start + 256, end), (tms, start, end))
      \<in> measure (\<lambda>(tms, start, end). unat (end - start))"
    by simp
qed

declare fill_loop.simps [simp del]

definition cli_fill_calls :: "(string \<Rightarrow> u32) \<Rightarrow> string list \<Rightarrow> call list" where
  "cli_fill_calls strtoul16 argv =
     (if length argv \<noteq> 4 then []
      else
        let tms = (argv ! 0 = ''tmsfill'');
            start = (ucast (strtoul16 (argv ! 1) AND 0xffff) :: u16);
            end = (ucast (strtoul16 (argv ! 2) AND 0xffff) :: u16)
        in fill_loop tms start end)"

definition cli_fill :: "(string \<Rightarrow> u32) \<Rightarrow> string list \<Rightarrow> machine \<Rightarrow> machine option" where
  "cli_fill strtoul16 argv s =
     (if length argv \<noteq> 4 then Some (say (Usage ''fill <start> <end> <value>'') s)
      else run_calls (fill_buf strtoul16 (argv ! 3)) (cli_fill_calls strtoul16 argv) s)"

subsection \<open>savebin (\<open>cli_savebin\<close>)\<close>

text \<open>
  The \<open>while (start <= end)\<close> loop of \<open>cli_savebin\<close>. \<open>f_write k\<close> is the result code of the
  \<open>k\<close>-th call of \<open>f_write\<close> (counted from 0). The loop returns the chunks \<open>(start, len)\<close> it
  has read from memory and handed to \<open>f_write\<close>, and the last result code; it returns \<open>None\<close>
  when it runs forever. \<open>start\<close>, \<open>end\<close> and \<open>len\<close> are \<open>uint16_t\<close>.
\<close>

partial_function (option) savebin_loop ::
  "(nat \<Rightarrow> FRESULT) \<Rightarrow> u16 \<Rightarrow> u16 \<Rightarrow> u16 \<Rightarrow> (u16 \<times> u16) list
     \<Rightarrow> ((u16 \<times> u16) list \<times> FRESULT) option" where
  "savebin_loop f_write start end len chunks =
     (if start \<le> end then
        (let len = (if end - start + 1 < len then end - start + 1 else len);
             fr = f_write (length chunks)
         in if fr \<noteq> FR_OK then Some (chunks @ [(start, len)], fr)
            else savebin_loop f_write (start + len) end len (chunks @ [(start, len)]))
      else Some (chunks, FR_OK))"

text \<open>
  The handler: the result is the console output and the chunks handed to \<open>f_write\<close>.
  \<open>f_open\<close> and \<open>f_close\<close> give the result codes of the two calls.
\<close>

definition cli_savebin ::
  "(string \<Rightarrow> u32) \<Rightarrow> (string \<Rightarrow> FRESULT) \<Rightarrow> (nat \<Rightarrow> FRESULT) \<Rightarrow> FRESULT
     \<Rightarrow> string list \<Rightarrow> (msg list \<times> (u16 \<times> u16) list) option" where
  "cli_savebin strtoul16 f_open f_write f_close argv =
     (if length argv < 4 then Some ([Usage ''savebin <start> <end> [file]''], [])
      else
        let start = (ucast (strtoul16 (argv ! 1) AND 0xffff) :: u16);
            end = (ucast (strtoul16 (argv ! 2) AND 0xffff) :: u16)
        in if f_open (argv ! 3) = FR_OK then
             (case savebin_loop f_write start end 256 [] of
                None \<Rightarrow> None
              | Some (chunks, fr) \<Rightarrow>
                  Some ((if fr \<noteq> FR_OK then [Write_error fr] else [])
                          @ (if f_close \<noteq> FR_OK then [Close_error f_close] else []),
                        chunks))
           else Some ([Open_error (f_open (argv ! 3))], []))"

subsection \<open>Verification (\<open>verify_mem\<close>)\<close>

text \<open>
  The inner \<open>for (j = 0; j < buflen; i++, j++)\<close> loop over the bytes \<open>buf[0..buflen)\<close> that
  \<open>read_mem\<close> returned. \<open>src\<close> is the reference as the code reads it: \<open>src k\<close> is the byte
  \<open>src[k]\<close>. \<open>i\<close> is \<open>uint32_t\<close>. \<open>errors\<close> is an \<open>int\<close>; it is counted here without a bound, and
  the theorems below are about counts far below \<open>2 ^ 15\<close>. The logged triple holds the three
  arguments of the \<open>printf_P\<close> call: \<open>start + i\<close>, \<open>src[i]\<close> and \<open>buf[j]\<close>.
\<close>

fun verify_chunk ::
  "u16 \<Rightarrow> (nat \<Rightarrow> u8) \<Rightarrow> bool \<Rightarrow> u8 list \<Rightarrow> u32 \<Rightarrow> int \<Rightarrow> msg list
     \<Rightarrow> u32 \<times> int \<times> msg list" where
  "verify_chunk start src log [] i errors out = (i, errors, out)"
| "verify_chunk start src log (b # buf) i errors out =
     (if b \<noteq> src (unat i) then
        verify_chunk start src log buf (i + 1) (errors + 1)
          (if log then out @ [Mismatch (ucast start + i) (src (unat i)) b] else out)
      else verify_chunk start src log buf (i + 1) errors out)"

text \<open>
  The outer \<open>while (i <= end)\<close> loop. The source calls \<open>read_mem(start, buf, buflen)\<close> in every
  round: the address argument is \<open>start\<close>, which the loop never changes.
\<close>

partial_function (option) verify_loop ::
  "machine \<Rightarrow> u16 \<Rightarrow> u16 \<Rightarrow> (nat \<Rightarrow> u8) \<Rightarrow> bool \<Rightarrow> u16 \<Rightarrow> u32 \<Rightarrow> int \<Rightarrow> msg list
     \<Rightarrow> (int \<times> msg list) option" where
  "verify_loop s start end src log buflen i errors out =
     (if i \<le> ucast end then
        (let buflen = (if ucast end - i + 1 < ucast buflen then ucast (ucast end - i + 1) else buflen);
             buf = read_mem s start buflen
         in case verify_chunk start src log buf i errors out of
              (i', errors', out') \<Rightarrow> verify_loop s start end src log buflen i' errors' out')
      else Some (errors, out))"

definition verify_mem ::
  "machine \<Rightarrow> u16 \<Rightarrow> u16 \<Rightarrow> (nat \<Rightarrow> u8) \<Rightarrow> bool \<Rightarrow> (int \<times> msg list) option" where
  "verify_mem s start end src log = verify_loop s start end src log 256 (ucast start) 0 []"

subsection \<open>dump and tmsdump (\<open>cli_dump\<close>)\<close>

text \<open>
  One round of the \<open>while (i <= end)\<close> loop (\<open>dump_row\<close>) prints the value of \<open>i\<close>, reads \<open>buflen = 16\<close> bytes
  at \<open>i\<close> (the \<open>uint32_t\<close> is converted to the 16-bit address parameter), prints all 16 in
  hexadecimal, and prints all 16 again as characters, a dot standing for a byte outside
  \<open>0x20..0x7e\<close>; the second \<open>for\<close> loop also increments \<open>i\<close> 16 times.
\<close>

definition printable :: "u8 \<Rightarrow> char" where
  "printable b = (if 0x20 \<le> b \<and> b \<le> 0x7e then char_of (unat b) else CHR ''.'')"

definition dump_row :: "machine \<Rightarrow> bool \<Rightarrow> u32 \<Rightarrow> msg" where
  "dump_row s tms i =
     (let buf = (if tms then tms_read s (ucast i) 16 else read_mem s (ucast i) 16)
      in Dump_row i buf (map printable buf))"

function dump_loop :: "machine \<Rightarrow> bool \<Rightarrow> u32 \<Rightarrow> u16 \<Rightarrow> msg list" where
  "dump_loop s tms i end =
     (if i \<le> ucast end then dump_row s tms i # dump_loop s tms (i + 16) end else [])"
  by pat_completeness auto
termination
proof (relation "measure (\<lambda>(s, tms, i, end). 65536 - unat i)")
  show "wf (measure (\<lambda>(s, tms, i, end). 65536 - unat i))"
    by simp
next
  fix s :: machine and tms :: bool and i :: u32 and "end" :: u16
  assume a: "i \<le> ucast end"
  have "unat (ucast end :: u32) = unat end"
    using unsigned_less [of "end", where 'a = nat]
    by (simp add: unsigned_ucast_eq take_bit_nat_eq_self)
  then have i: "unat i < 65536"
    using a unsigned_less [of "end", where 'a = nat] by (simp add: word_le_nat_alt)
  then have "unat (i + 16) = unat i + 16"
    by (simp add: unat_word_ariths)
  then show "((s, tms, i + 16, end), (s, tms, i, end))
      \<in> measure (\<lambda>(s, tms, i, end). 65536 - unat i)"
    using i by simp
qed

declare dump_loop.simps [simp del]

definition cli_dump :: "(string \<Rightarrow> u32) \<Rightarrow> string list \<Rightarrow> machine \<Rightarrow> msg list" where
  "cli_dump strtoul16 argv s =
     (let tms = (argv ! 0 = ''tmsdump'') in
      if length argv < 2 then [Usage ''dump <start> [end]'']
      else
        let start = (ucast (strtoul16 (argv ! 1) AND 0xffff) :: u16);
            end = (if length argv < 3 then start + 0xff
                   else (ucast (strtoul16 (argv ! 2) AND 0xffff) :: u16))
        in Dump_header start end # dump_loop s tms (ucast start) end)"

subsection \<open>break and watch (\<open>cli_breakwatch\<close>)\<close>

record range =
  range_start :: u16
  range_end :: u16

text \<open>
  The two global arrays \<open>breaks\<close> and \<open>watches\<close> of \<open>DEBUGCNT\<close> ranges each. \<open>DEBUGCNT\<close> and the
  name table \<open>debug_names\<close> are declared in z80.h, which is not among the sources: the handler
  takes the table as a parameter, and \<open>DEBUGCNT\<close> is its length.
\<close>

record registry =
  breaks :: "range list"
  watches :: "range list"

definition sentinel :: range where
  "sentinel = \<lparr>range_start = 0xffff, range_end = 0\<rparr>"

text \<open>
  The search loop \<open>for (type = 0; type < DEBUGCNT; type++) if (strcmp_P(...) == 0) break;\<close>:
  the index of the first equal name, or \<open>DEBUGCNT\<close> when there is none.
\<close>

fun find_type :: "string list \<Rightarrow> string \<Rightarrow> nat" where
  "find_type [] name = 0"
| "find_type (n # names) name = (if name = n then 0 else Suc (find_type names name))"

text \<open>
  The handler's effect on the two arrays. \<open>strtoul\<close> returns an \<open>unsigned long\<close>; the
  assignment to a \<open>uint16_t\<close> field keeps its low 16 bits. With one argument the handler
  only prints the status, and for an unknown type only an error message.
\<close>

definition cli_breakwatch ::
  "string list \<Rightarrow> (string \<Rightarrow> u32) \<Rightarrow> string list \<Rightarrow> registry \<Rightarrow> registry" where
  "cli_breakwatch debug_names strtoul16 argv reg =
     (let is_break = (argv ! 0 = ''break'');
          ranges = (if is_break then breaks reg else watches reg);
          put = (\<lambda>rs. if is_break then reg\<lparr>breaks := rs\<rparr> else reg\<lparr>watches := rs\<rparr>);
          DEBUGCNT = length debug_names
      in if length argv = 1 then reg
         else if argv ! 1 = ''off'' then
           put (fold (\<lambda>i rs. rs[i := sentinel]) [0..<DEBUGCNT] ranges)
         else
           let type = find_type debug_names (argv ! 1)
           in if type = DEBUGCNT then reg
              else if length argv = 2 then
                put (ranges[type := \<lparr>range_start = 0, range_end = 0xffff\<rparr>])
              else if argv ! 2 = ''off'' then put (ranges[type := sentinel])
              else
                let start = (ucast (strtoul16 (argv ! 2)) :: u16);
                    end = (if length argv \<ge> 4 then (ucast (strtoul16 (argv ! 3)) :: u16)
                           else start)
                in put (ranges[type := \<lparr>range_start = start, range_end = end\<rparr>]))"

text \<open>A command session: the handler run on each command line in turn.\<close>

definition breakwatch_session ::
  "string list \<Rightarrow> (string \<Rightarrow> u32) \<Rightarrow> string list list \<Rightarrow> registry \<Rightarrow> registry" where
  "breakwatch_session debug_names strtoul16 cmds reg =
     fold (cli_breakwatch debug_names strtoul16) cmds reg"

text \<open>
  The command lines on which the handler reaches its two \<open>strtoul\<close> assignments, to
  \<open>ranges[type].start\<close> and to \<open>ranges[type].end\<close>: at least four tokens, the second neither
  \<open>off\<close> nor an unknown type name, the third not \<open>off\<close>.
\<close>

definition sets_both_addresses :: "string list \<Rightarrow> string list \<Rightarrow> bool" where
  "sets_both_addresses debug_names argv =
     (4 \<le> length argv \<and> argv ! 1 \<noteq> ''off'' \<and>
      find_type debug_names (argv ! 1) \<noteq> length debug_names \<and> argv ! 2 \<noteq> ''off'')"

text \<open>
  The state of one range as the spec (3) describes it: enabled with \<open>start <= end\<close>, or the
  sentinel pair.
\<close>

definition range_ok :: "range \<Rightarrow> bool" where
  "range_ok r = (range_start r \<le> range_end r \<or> r = sentinel)"

definition registry_ok :: "registry \<Rightarrow> bool" where
  "registry_ok reg = (list_all range_ok (breaks reg) \<and> list_all range_ok (watches reg))"

subsection \<open>baud (\<open>cli_baud\<close>)\<close>

text \<open>
  The search loop. \<open>ubrr\<close> is \<open>uint16_t\<close>; \<open>actual\<close>, \<open>requested\<close> and the clock \<open>F_CPU\<close> are
  \<open>uint32_t\<close>. The loop returns the values of \<open>ubrr\<close> and \<open>actual\<close> on leaving.
\<close>

function baud_loop :: "u32 \<Rightarrow> u32 \<Rightarrow> u16 \<Rightarrow> u16 \<times> u32" where
  "baud_loop F_CPU requested ubrr =
     (let actual = F_CPU div (16 * (ucast ubrr + 1)) in
      if actual \<le> requested then (ubrr, actual)
      else if ubrr + 1 = 0 then (ubrr + 1, actual)
      else baud_loop F_CPU requested (ubrr + 1))"
  by pat_completeness auto
termination
proof (relation "measure (\<lambda>(F_CPU, requested, ubrr). 65536 - unat ubrr)")
  show "wf (measure (\<lambda>(F_CPU, requested, ubrr). 65536 - unat ubrr))"
    by simp
next
  fix F_CPU requested :: u32 and ubrr :: u16 and actual :: u32
  assume "ubrr + 1 \<noteq> 0"
  then have "unat (ubrr + 1) = unat ubrr + 1"
    using unatSuc [of ubrr] by (simp add: add.commute)
  moreover have "unat (ubrr + 1) < 65536"
    using unsigned_less [of "ubrr + 1", where 'a = nat] by simp
  ultimately show "((F_CPU, requested, ubrr + 1), (F_CPU, requested, ubrr))
      \<in> measure (\<lambda>(F_CPU, requested, ubrr). 65536 - unat ubrr)"
    by simp
qed

declare baud_loop.simps [simp del]

text \<open>
  The handler: what it prints, and the arguments of its call \<open>uart_init(uart, ubrr)\<close>.
  \<open>F_CPU\<close> is the compiler option \<open>-DF_CPU\<close> of the Makefile.
\<close>

definition F_CPU :: u32 where
  "F_CPU = 20000000"

record baud_result =
  printed :: "msg list"
  uart_init :: "(u8 \<times> u16) option"

definition cli_baud :: "(string \<Rightarrow> u32) \<Rightarrow> string list \<Rightarrow> baud_result" where
  "cli_baud strtoul10 argv =
     (if length argv \<noteq> 3 then
        \<lparr>printed = [Usage ''baud <uart> <baud>''], uart_init = None\<rparr>
      else
        let uart = (ucast (strtoul10 (argv ! 1) AND 1) :: u8);
            requested = strtoul10 (argv ! 2)
        in case baud_loop F_CPU requested 0 of
             (ubrr, actual) \<Rightarrow>
               \<lparr>printed = [Baud_report uart requested actual], uart_init = Some (uart, ubrr)\<rparr>)"

subsection \<open>Command files (\<open>cli_exec\<close>, \<open>cli_do\<close>, \<open>main\<close>)\<close>

text \<open>
  What \<open>cli_exec\<close> does, in order: the messages it prints and the lines it hands to
  \<open>cli_dispatch\<close>. \<open>f_open\<close> and \<open>f_close\<close> give the result code for a file name, and
  \<open>fgets_of\<close> the strings that the successive calls of \<open>fgets\<close> return for the file before
  the call that returns \<open>NULL\<close>.
\<close>

datatype action = Say msg | Dispatch string

definition AUTOEXEC :: string where
  "AUTOEXEC = ''autoexec.z8c''"

definition cli_exec ::
  "(string \<Rightarrow> FRESULT) \<Rightarrow> (string \<Rightarrow> string list) \<Rightarrow> (string \<Rightarrow> FRESULT) \<Rightarrow> string
     \<Rightarrow> action list" where
  "cli_exec f_open fgets_of f_close filename =
     (let fr = f_open filename in
      if fr = FR_OK then
        concat (map (\<lambda>buf. [Say (Echo filename buf), Dispatch buf])
                  (takeWhile (\<lambda>buf. buf \<noteq> []) (fgets_of filename)))
          @ (if f_close filename \<noteq> FR_OK then [Say (Close_error (f_close filename))] else [])
      else if fr \<noteq> FR_NO_FILE \<or> filename \<noteq> AUTOEXEC then [Say (Open_error fr)]
      else [])"

definition cli_do ::
  "(string \<Rightarrow> FRESULT) \<Rightarrow> (string \<Rightarrow> string list) \<Rightarrow> (string \<Rightarrow> FRESULT) \<Rightarrow> string list
     \<Rightarrow> action list" where
  "cli_do f_open fgets_of f_close argv =
     (if length argv < 2 then [Say (Usage ''do <filename>'')]
      else cli_exec f_open fgets_of f_close (argv ! 1))"

text \<open>The call \<open>cli_exec(AUTOEXEC)\<close> of \<open>main\<close>.\<close>

definition main_autoexec ::
  "(string \<Rightarrow> FRESULT) \<Rightarrow> (string \<Rightarrow> string list) \<Rightarrow> (string \<Rightarrow> FRESULT) \<Rightarrow> action list" where
  "main_autoexec f_open fgets_of f_close = cli_exec f_open fgets_of f_close AUTOEXEC"

subsection \<open>poke (\<open>cli_poke\<close>)\<close>

text \<open>
  \<open>cli_dispatch\<close> stores a null pointer in \<open>argv[argc]\<close> (the result of the last \<open>strtok\<close>)
  when the line has fewer than \<open>MAXARGS\<close> tokens: \<open>arg argv k\<close> is \<open>argv[k]\<close>, \<open>None\<close> for the
  null pointer.
\<close>

definition arg :: "string list \<Rightarrow> nat \<Rightarrow> string option" where
  "arg argv k = (if k < length argv then Some (argv ! k) else None)"

text \<open>
  What \<open>cli_poke\<close> does with the bus memory and the console, in order.
\<close>

datatype poke_event = Printed msg | Mem_read u16 | Mem_write u16 u8

text \<open>
  The interactive \<open>for (;;)\<close> loop. \<open>input\<close> holds the strings that the successive calls of
  \<open>fgets\<close> return; the call after the last of them returns \<open>NULL\<close>. \<open>strtoul16_end buf\<close> is
  the result of \<open>strtoul(buf, &end, 16)\<close>: the value, and the number of characters
  \<open>end - buf\<close> it has consumed.
\<close>

fun poke_loop ::
  "(string \<Rightarrow> u32 \<times> nat) \<Rightarrow> string list \<Rightarrow> u16 \<Rightarrow> memory \<Rightarrow> poke_event list
     \<Rightarrow> memory \<times> poke_event list" where
  "poke_loop strtoul16_end [] addr mem tr =
     (mem, tr @ [Mem_read addr, Printed (Poke_prompt addr (mem addr))])"
| "poke_loop strtoul16_end (buf # input) addr mem tr =
     (let tr = tr @ [Mem_read addr, Printed (Poke_prompt addr (mem addr))];
          value = (ucast (fst (strtoul16_end buf)) :: u8)
      in if (case buf of [] \<Rightarrow> True | c # cs \<Rightarrow> c = CHR 0x0A \<or> c = CHR 0x0D) then
           poke_loop strtoul16_end input (addr + 1) mem tr
         else if snd (strtoul16_end buf) = 0 then (mem, tr)
         else poke_loop strtoul16_end input (addr + 1) (store_bytes mem addr [value])
                (tr @ [Mem_write addr value]))"

text \<open>
  The handler. The source prints the usage line when \<open>argc < 2\<close> and has no \<open>return\<close> after
  it. \<open>strtoul16\<close> is applied to \<open>argv[1]\<close> also when that is the null pointer; what it
  returns there is whatever the parameter says.
\<close>

definition cli_poke ::
  "(string option \<Rightarrow> u32) \<Rightarrow> (string \<Rightarrow> u32 \<times> nat) \<Rightarrow> string list \<Rightarrow> string list \<Rightarrow> memory
     \<Rightarrow> memory \<times> poke_event list" where
  "cli_poke strtoul16 strtoul16_end argv input mem =
     (let tr = (if length argv < 2 then [Printed (Usage ''poke <start> [value]'')] else []);
          addr = (ucast (strtoul16 (arg argv 1) AND 0xffff) :: u16)
      in if length argv = 3 then
           (let value = (ucast (strtoul16 (arg argv 2) AND 0xff) :: u8)
            in (store_bytes mem addr [value], tr @ [Mem_write addr value]))
         else
           poke_loop strtoul16_end input addr mem
             (tr @ [Printed (Text ''enter valid hex to replace; blank to leave unchanged; x to exit.'')]))"

section \<open>Properties\<close>

subsection \<open>Evaluating the argument parser\<close>

lemma hex_0: "hex ''0'' = 0"
  by (simp add: hex_def digit_val_def)

lemma hex_100: "hex ''100'' = 0x100"
  by (simp add: hex_def digit_val_def)

lemma hex_aa: "hex ''aa'' = 0xaa"
  by (simp add: hex_def digit_val_def)

lemma hex_ff01: "hex ''ff01'' = 0xff01"
  by (simp add: hex_def digit_val_def)

lemma hex_ffff: "hex ''ffff'' = 0xffff"
  by (simp add: hex_def digit_val_def)

subsection \<open>fill\<close>

lemma length_fill_buf: "length (fill_buf strtoul16 a) = 256"
  by (simp add: fill_buf_def Let_def)

text \<open>Every run of the fill loop issues a write, whatever the two addresses are.\<close>

lemma fill_loop_nonempty: "fill_loop tms start end \<noteq> []"
  by (subst fill_loop.simps) simp

lemma fill_step_le:
  fixes s e :: u16
  assumes "s \<le> e" "256 < e - s"
  shows "s + 256 \<le> e" "unat (s + 256) = unat s + 256"
proof -
  have d: "unat (e - s) = unat e - unat s"
    using assms(1) by (simp add: unat_sub)
  have "256 < unat e - unat s"
    using assms(2) d by (simp add: word_less_nat_alt)
  moreover have "unat e < 65536"
    using unsigned_less [of e, where 'a = nat] by simp
  ultimately have lt: "unat s + 256 < 65536" "unat s + 256 \<le> unat e"
    by simp_all
  then show u: "unat (s + 256) = unat s + 256"
    by (simp add: unat_word_ariths)
  then show "s + 256 \<le> e"
    using lt by (simp add: word_le_nat_alt)
qed

lemma fill_last_len:
  fixes s e :: u16
  assumes "s \<le> e" "\<not> 256 < e - s"
  shows "unat (e - s + 1) = unat e - unat s + 1"
proof -
  have d: "unat (e - s) = unat e - unat s"
    using assms(1) by (simp add: unat_sub)
  have "unat (e - s) \<le> 256"
    using assms(2) by (simp add: word_less_nat_alt)
  then have "unat (e - s + 1) = unat (e - s) + 1"
    by (simp add: unat_word_ariths)
  then show ?thesis using d by simp
qed

lemma fill_loop_bus_total:
  "\<not> tms \<Longrightarrow> start \<le> end \<Longrightarrow>
     sum_list (map call_len (fill_loop tms start end)) = unat end - unat start + 1"
proof (induction tms start "end" rule: fill_loop.induct)
  case (1 tms start "end")
  show ?case
  proof (cases "256 < end - start")
    case True
    have le: "start + 256 \<le> end" and u: "unat (start + 256) = unat start + 256"
      using fill_step_le [OF "1.prems"(2) True] by simp_all
    have "sum_list (map call_len (fill_loop tms (start + 256) end))
        = unat end - unat (start + 256) + 1"
      using "1.IH" True le "1.prems"(1) by simp
    moreover have "unat start + 256 \<le> unat end"
      using le u by (simp add: word_le_nat_alt)
    ultimately show ?thesis
      using True u "1.prems"(1) by (subst fill_loop.simps) simp
  next
    case False
    then show ?thesis
      using fill_last_len [OF "1.prems"(2) False] "1.prems"(1) by (subst fill_loop.simps) simp
  qed
qed

text \<open>
  On the bus target and for \<open>start <= end\<close> the lengths of the write calls add up to
  \<open>end - start + 1\<close> (lemma \<open>fill_loop_bus_total\<close> above). On the video target every run
  ends with a pair of calls of the same address and length, one to each target.
\<close>

lemma fill_loop_tms_final_pair:
  "\<exists>cs a l. fill_loop True start end = cs @ [Tms_write a l, Write_mem a l]"
proof (induction "True" start "end" rule: fill_loop.induct)
  case (1 start "end")
  show ?case
  proof (cases "256 < end - start")
    case True
    from "1" [OF True] obtain cs a l where
      "fill_loop True (start + 256) end = cs @ [Tms_write a l, Write_mem a l]"
      by auto
    then have "fill_loop True start end = (Tms_write start 256 # cs) @ [Tms_write a l, Write_mem a l]"
      using True by (subst fill_loop.simps) simp
    then show ?thesis
      by blast
  next
    case False
    then have "fill_loop True start end
        = [] @ [Tms_write start (end - start + 1), Write_mem start (end - start + 1)]"
      by (subst fill_loop.simps) simp
    then show ?thesis
      by blast
  qed
qed

text \<open>
  C1, at the command line \<open>tmsfill 0 0 aa\<close>. The claim: a fill with the video-memory target
  writes its final chunk by exactly one write call, to the video memory, and leaves the bus
  memory unchanged. The code: the one-byte final chunk is written by two calls, first
  \<open>tms_write(0, buf, 1)\<close> and then \<open>write_mem(0, buf, 1)\<close>, and on a machine whose memories
  are all zero the byte \<open>0xaa\<close> ends up at address 0 of the video memory and of the bus
  memory.
\<close>

theorem tmsfill_final_chunk_two_writes:
  "cli_fill_calls hex [''tmsfill'', ''0'', ''0'', ''aa''] = [Tms_write 0 1, Write_mem 0 1] \<and>
   map_option (\<lambda>s'. (bus s' 0, vram s' 0))
     (cli_fill hex [''tmsfill'', ''0'', ''0'', ''aa'']
        \<lparr>bus = (\<lambda>a. 0), vram = (\<lambda>a. 0), console = []\<rparr>) = Some (0xaa, 0xaa)"
proof -
  have calls: "cli_fill_calls hex [''tmsfill'', ''0'', ''0'', ''aa''] = [Tms_write 0 1, Write_mem 0 1]"
    by (simp add: cli_fill_calls_def hex_0 fill_loop.simps)
  then show ?thesis
    by (simp add: cli_fill_def write_mem_def tms_write_def length_fill_buf store_bytes_def
        fill_buf_def hex_aa upt_rec)
qed

text \<open>
  C4, at the command line \<open>fill ff01 0 aa\<close>, where \<open>start = 0xff01 > end = 0\<close>. The claim: a
  fill with \<open>start > end\<close> issues no write. The code: \<open>end - start\<close> is \<open>0xff\<close> modulo
  \<open>2 ^ 16\<close>, so the loop takes its final branch at once and calls
  \<open>write_mem(0xff01, buf, 0x100)\<close>: 256 bytes are written, from \<open>0xff01\<close> up and around to
  address 0.
\<close>

theorem fill_inverted_range_writes:
  "cli_fill_calls hex [''fill'', ''ff01'', ''0'', ''aa''] = [Write_mem 0xff01 0x100]"
  by (simp add: cli_fill_calls_def hex_0 hex_ff01 fill_loop.simps)

text \<open>
  C6, at the command line \<open>fill 0 100 aa\<close>, a range of 257 bytes. The claim: the first chunk
  is the full 256-byte pattern, the final chunk is \<open>257 mod 256 = 1\<close> byte, and no chunk
  exceeds 256 bytes. The code: \<open>end - start = 256\<close> is not greater than 256, so the whole
  range is written by the single call \<open>write_mem(0, buf, 0x101)\<close>, whose 257 bytes do not
  fit the 256-byte buffer (the effect of the command is undefined).
\<close>

theorem fill_257_bytes_one_oversized_chunk:
  "cli_fill_calls hex [''fill'', ''0'', ''100'', ''aa''] = [Write_mem 0 0x101] \<and>
   map call_len (cli_fill_calls hex [''fill'', ''0'', ''100'', ''aa'']) = [257] \<and>
   cli_fill hex [''fill'', ''0'', ''100'', ''aa''] s = None"
proof -
  have calls: "cli_fill_calls hex [''fill'', ''0'', ''100'', ''aa''] = [Write_mem 0 0x101]"
    by (simp add: cli_fill_calls_def hex_0 hex_100 fill_loop.simps)
  then show ?thesis
    by (simp add: cli_fill_def write_mem_def length_fill_buf)
qed

subsection \<open>savebin\<close>

text \<open>With \<open>start > end\<close> the save loop does nothing: no memory is read, nothing is written.\<close>

lemma savebin_loop_inverted:
  assumes "end < start"
  shows "savebin_loop f_write start end len chunks = Some (chunks, FR_OK)"
proof -
  have "\<not> start \<le> end"
    using assms by simp
  then show ?thesis
    by (subst savebin_loop.simps) simp
qed

text \<open>A failing \<open>f_write\<close> ends the loop at once, with the chunk it was given as the last one.\<close>

lemma savebin_write_failure_aborts:
  assumes "start \<le> end" and "f_write (length chunks) \<noteq> FR_OK"
  shows "savebin_loop f_write start end len chunks
    = Some (chunks @ [(start, if end - start + 1 < len then end - start + 1 else len)],
            f_write (length chunks))"
  using assms by (subst savebin_loop.simps) (simp add: Let_def)

text \<open>
  For \<open>start <= end < 0xffff\<close>, and while every \<open>f_write\<close> succeeds, the loop returns; its chunks
  are at most 256 bytes long and their lengths add up to \<open>end - start + 1\<close>.
\<close>

lemma savebin_loop_total:
  assumes "start \<le> end" and "end < 0xffff"
  shows "\<exists>cs. savebin_loop (\<lambda>k. FR_OK) start end 256 chunks = Some (chunks @ cs, FR_OK) \<and>
           sum_list (map (\<lambda>c. unat (snd c)) cs) = unat end - unat start + 1 \<and>
           list_all (\<lambda>c. unat (snd c) \<le> 256) cs"
  using assms
proof (induction "unat end - unat start" arbitrary: start chunks rule: less_induct)
  case less
  have le: "unat start \<le> unat end"
    using less.prems(1) by (simp add: word_le_nat_alt)
  have e: "unat end < 65535"
    using less.prems(2) by (simp add: word_less_nat_alt)
  have d: "unat (end - start + 1) = unat end - unat start + 1"
  proof -
    have "unat (end - start) = unat end - unat start"
      using less.prems(1) by (simp add: unat_sub)
    then show ?thesis
      using e by (simp add: unat_word_ariths)
  qed
  have e1: "unat (end + 1) = unat end + 1"
    using e by (simp add: unat_word_ariths)
  show ?case
  proof (cases "end - start + 1 < 256")
    case True
    have next_start: "start + (end - start + 1) = end + 1"
      by simp
    have "\<not> end + 1 \<le> end"
      using e1 by (simp add: word_le_nat_alt)
    then have stop: "savebin_loop (\<lambda>k. FR_OK) (end + 1) end (end - start + 1)
        (chunks @ [(start, end - start + 1)]) = Some (chunks @ [(start, end - start + 1)], FR_OK)"
      by (subst savebin_loop.simps) simp
    have "savebin_loop (\<lambda>k. FR_OK) start end 256 chunks
        = Some (chunks @ [(start, end - start + 1)], FR_OK)"
      using less.prems(1) True stop
      by (subst savebin_loop.simps) (simp add: Let_def next_start del: add_diff_cancel_left')
    moreover have "unat (end - start + 1) \<le> 256"
      using True by (simp add: word_less_nat_alt)
    ultimately show ?thesis
      using d by (intro exI [of _ "[(start, end - start + 1)]"]) simp
  next
    case False
    then have big: "256 \<le> unat end - unat start + 1"
      using d by (simp add: word_less_nat_alt)
    have s256: "unat (start + 256) = unat start + 256"
      using big e le by (simp add: unat_word_ariths)
    have unfold: "savebin_loop (\<lambda>k. FR_OK) start end 256 chunks
        = savebin_loop (\<lambda>k. FR_OK) (start + 256) end 256 (chunks @ [(start, 256)])"
      using less.prems(1) False by (subst savebin_loop.simps) (simp add: Let_def)
    show ?thesis
    proof (cases "start + 256 \<le> end")
      case True
      then have le': "unat start + 256 \<le> unat end"
        using s256 by (simp add: word_le_nat_alt)
      have "unat end - unat (start + 256) < unat end - unat start"
        using le' s256 by simp
      from less.hyps [OF this True less.prems(2), of "chunks @ [(start, 256)]"]
      obtain cs where cs: "savebin_loop (\<lambda>k. FR_OK) (start + 256) end 256 (chunks @ [(start, 256)])
            = Some ((chunks @ [(start, 256)]) @ cs, FR_OK)"
          "sum_list (map (\<lambda>c. unat (snd c)) cs) = unat end - unat (start + 256) + 1"
          "list_all (\<lambda>c. unat (snd c) \<le> 256) cs"
        by auto
      show ?thesis
        using unfold cs le' s256 by (intro exI [of _ "(start, 256) # cs"]) simp
    next
      case False
      then have "unat end < unat start + 256"
        using s256 by (simp add: word_le_nat_alt)
      then have eq: "unat end - unat start + 1 = 256"
        using big by simp
      have "savebin_loop (\<lambda>k. FR_OK) (start + 256) end 256 (chunks @ [(start, 256)])
          = Some (chunks @ [(start, 256)], FR_OK)"
        using False by (subst savebin_loop.simps) simp
      then show ?thesis
        using unfold eq by (intro exI [of _ "[(start, 256)]"]) simp
    qed
  qed
qed

text \<open>
  While every \<open>f_write\<close> succeeds, the loop started at address 0 with \<open>end = 0xffff\<close> cannot
  return: \<open>end - start + 1\<close> is 0 modulo \<open>2 ^ 16\<close>, so \<open>len\<close> becomes 0 and \<open>start\<close> stays 0.
\<close>

lemma savebin_stuck:
  assumes "savebin_loop f_write start end len chunks = Some r"
  shows "\<not> (start = 0 \<and> end = 0xffff \<and> f_write = (\<lambda>k. FR_OK))"
proof (rule savebin_loop.raw_induct
    [where P = "\<lambda>fw s e l c y. \<not> (s = 0 \<and> e = 0xffff \<and> fw = (\<lambda>k. FR_OK))", OF _ assms])
  fix loop :: "(nat \<Rightarrow> FRESULT) \<Rightarrow> u16 \<Rightarrow> u16 \<Rightarrow> u16 \<Rightarrow> (u16 \<times> u16) list
      \<Rightarrow> ((u16 \<times> u16) list \<times> FRESULT) option"
    and fw s e l c y
  assume IH: "\<And>fw s e l c y. loop fw s e l c = Some y
      \<Longrightarrow> \<not> (s = 0 \<and> e = 0xffff \<and> fw = (\<lambda>k. FR_OK))"
  assume eq: "(if s \<le> e
      then let len = if e - s + 1 < l then e - s + 1 else l; fr = fw (length c)
           in if fr \<noteq> FR_OK then Some (c @ [(s, len)], fr)
              else loop fw (s + len) e len (c @ [(s, len)])
      else Some (c, FR_OK)) = Some y"
  show "\<not> (s = 0 \<and> e = 0xffff \<and> fw = (\<lambda>k. FR_OK))"
  proof
    assume a: "s = 0 \<and> e = 0xffff \<and> fw = (\<lambda>k. FR_OK)"
    from a have s: "s = 0" and e: "e = 0xffff" and fw: "fw = (\<lambda>k. FR_OK)"
      by simp_all
    have d: "e - s + 1 = 0"
      unfolding s e by simp
    have l0: "(if e - s + 1 < l then e - s + 1 else l) = 0"
      unfolding d by (auto simp: word_gt_0)
    have "s \<le> e"
      unfolding s by simp
    with eq have "loop fw (s + 0) e 0 (c @ [(s, 0)]) = Some y"
      by (simp add: l0 Let_def fw)
    then have "loop fw 0 0xffff 0 (c @ [(0, 0)]) = Some y"
      unfolding s e by simp
    from IH [OF this] fw show False by simp
  qed
qed

text \<open>
  C3, at the command line \<open>savebin 0 ffff f\<close> with a file that opens and accepts every write.
  The claim: for every \<open>start <= end\<close> the save loop terminates, having written
  \<open>end - start + 1\<close> bytes. The code: at \<open>start = 0\<close>, \<open>end = 0xffff\<close> the loop never returns (the
  handler's result is \<open>None\<close>); \<open>start <= end\<close> holds for every 16-bit \<open>start\<close>, and each round
  hands a chunk of length 0 to \<open>f_write\<close>.
\<close>

theorem savebin_whole_memory_never_returns:
  "savebin_loop (\<lambda>k. FR_OK) 0 0xffff 256 [] = None \<and>
   cli_savebin hex (\<lambda>name. FR_OK) (\<lambda>k. FR_OK) FR_OK [''savebin'', ''0'', ''ffff'', ''f''] = None"
proof -
  have loop: "savebin_loop (\<lambda>k. FR_OK) 0 0xffff 256 [] = None"
  proof (cases "savebin_loop (\<lambda>k. FR_OK) 0 0xffff 256 []")
    case None
    then show ?thesis .
  next
    case (Some r)
    from savebin_stuck [OF this] show ?thesis
      by simp
  qed
  then show ?thesis
    by (simp add: cli_savebin_def hex_0 hex_ffff)
qed

subsection \<open>baud\<close>

lemma dec_0: "dec ''0'' = 0"
  by (simp add: dec_def digit_val_def)

lemma dec_18: "dec ''18'' = 18"
  by (simp add: dec_def digit_val_def)

lemma dec_115200: "dec ''115200'' = 115200"
  by (simp add: dec_def digit_val_def)

text \<open>
  When no divisor gives a rate at or below the request, the loop runs until \<open>ubrr\<close> wraps
  around to 0 and leaves with \<open>ubrr = 0\<close> and the rate computed for \<open>ubrr = 0xffff\<close>.
\<close>

lemma baud_loop_overflow:
  "(\<And>u :: u16. requested < F div (16 * (ucast u + 1))) \<Longrightarrow>
     baud_loop F requested ubrr = (0, F div (16 * 65536))"
proof (induction F requested ubrr rule: baud_loop.induct)
  case (1 F requested ubrr)
  have gt: "\<not> F div (16 * (ucast ubrr + 1)) \<le> requested"
    using "1.prems" [of ubrr] by simp
  show ?case
  proof (cases "ubrr + 1 = 0")
    case True
    then have "ubrr = - 1"
      by (simp add: eq_neg_iff_add_eq_0)
    then have "ubrr = 0xffff"
      by simp
    then show ?thesis
      using gt by (subst baud_loop.simps) (simp add: Let_def)
  next
    case False
    have "baud_loop F requested (ubrr + 1) = (0, F div (16 * 65536))"
      using "1.IH" [OF refl gt False] "1.prems" by simp
    then show ?thesis
      using gt False by (subst baud_loop.simps) (simp add: Let_def)
  qed
qed

lemma slowest_rate:
  fixes u :: u16
  shows "(18 :: u32) < 20000000 div (16 * (ucast u + 1))"
proof -
  have u: "unat u < 65536"
    using unsigned_less [of u, where 'a = nat] by simp
  then have c: "unat (ucast u :: u32) = unat u"
    by (simp add: unsigned_ucast_eq take_bit_nat_eq_self)
  have p: "unat (ucast u + 1 :: u32) = unat u + 1"
    using u c by (simp add: unat_word_ariths)
  have "unat (16 :: u32) * unat (ucast u + 1 :: u32) < 2 ^ LENGTH(32)"
    using u by (simp add: p)
  then have "unat ((16 :: u32) * (ucast u + 1)) = unat (16 :: u32) * unat (ucast u + 1 :: u32)"
    by (simp only: unat_mult_lem)
  then have m: "unat (16 * (ucast u + 1) :: u32) = 16 * (unat u + 1)"
    by (simp add: p)
  have "unat ((20000000 :: u32) div (16 * (ucast u + 1))) = 20000000 div (16 * (unat u + 1))"
    by (simp only: unat_div m) simp
  moreover have "(20000000 :: nat) div 1048576 \<le> 20000000 div (16 * (unat u + 1))"
    using u by (intro div_le_mono2) simp_all
  ultimately show ?thesis
    by (simp add: word_less_nat_alt)
qed

text \<open>
  When the loop leaves with a rate at or below the request, that rate is the one of the
  divisor it leaves with.
\<close>

lemma baud_loop_found:
  "baud_loop F requested ubrr = (u, a) \<Longrightarrow> a \<le> requested \<Longrightarrow>
     a = F div (16 * (ucast u + 1))"
proof (induction F requested ubrr rule: baud_loop.induct)
  case (1 F requested ubrr)
  show ?case
  proof (cases "F div (16 * (ucast ubrr + 1)) \<le> requested")
    case True
    then show ?thesis
      using "1.prems"(1) by (subst (asm) baud_loop.simps) (auto simp: Let_def)
  next
    case False
    show ?thesis
    proof (cases "ubrr + 1 = 0")
      case True
      then have "a = F div (16 * (ucast ubrr + 1))"
        using False "1.prems"(1) by (subst (asm) baud_loop.simps) (simp add: Let_def)
      then show ?thesis
        using False "1.prems"(2) by simp
    next
      case nz: False
      have "baud_loop F requested (ubrr + 1) = (u, a)"
        using False nz "1.prems"(1) by (subst (asm) baud_loop.simps) (simp add: Let_def)
      from "1.IH" [OF refl False nz this "1.prems"(2)] show ?thesis .
    qed
  qed
qed

text \<open>
  The request of the spec's example: at 115200 the search stops at divisor 10 and reports
  the rate 113636.
\<close>

lemma cli_baud_115200:
  "cli_baud dec [''baud'', ''0'', ''115200'']
     = \<lparr>printed = [Baud_report 0 115200 113636], uart_init = Some (0, 10)\<rparr>"
  by (simp add: cli_baud_def dec_0 dec_115200 F_CPU_def Let_def baud_loop.simps)

text \<open>
  C7, at the command line \<open>baud 0 18\<close>. The claim: the divisor and the rate that the search
  reports correspond as \<open>actual = clock / (16 * (divisor + 1))\<close>. The code: no 16-bit divisor
  gives a rate of 18 or less at 20 MHz, the divisor register wraps around, and the handler
  prints the rate 19 (that of divisor \<open>0xffff\<close>) while it calls \<open>uart_init\<close> with divisor 0, whose
  rate is 1250000.
\<close>

theorem baud_overflow_reports_mismatched_divisor:
  "cli_baud dec [''baud'', ''0'', ''18'']
     = \<lparr>printed = [Baud_report 0 18 19], uart_init = Some (0, 0)\<rparr> \<and>
   F_CPU div (16 * (ucast (0 :: u16) + 1)) = 1250000"
  using baud_loop_overflow [of 18 20000000 0, OF slowest_rate]
  by (simp add: cli_baud_def dec_0 dec_18 F_CPU_def)

subsection \<open>Verification\<close>

lemma verify_chunk_equal:
  "(\<And>b. b \<in> set buf \<Longrightarrow> b = c) \<Longrightarrow> (\<And>k. src k = c) \<Longrightarrow>
     verify_chunk start src log buf i errors out = (i + of_nat (length buf), errors, out)"
  by (induction buf arbitrary: i) (simp_all add: algebra_simps)

lemma verify_chunk_differ:
  "(\<And>b. b \<in> set buf \<Longrightarrow> b \<noteq> c) \<Longrightarrow> (\<And>k. src k = c) \<Longrightarrow>
     verify_chunk start src False buf i errors out
       = (i + of_nat (length buf), errors + int (length buf), out)"
  by (induction buf arbitrary: i errors) (simp_all add: algebra_simps)

lemma of_nat_neq_0x100:
  assumes "k < 256"
  shows "(of_nat k :: u16) \<noteq> 0x100"
proof
  assume "(of_nat k :: u16) = 0x100"
  then have "unat (of_nat k :: u16) = unat (0x100 :: u16)"
    by simp
  then show False
    using assms by (simp add: unat_of_nat)
qed

text \<open>
  The example of the spec (8.3): with \<open>0xaa\<close> in the bus memory at \<open>0x1000..0x10ff\<close>, and a
  reference whose bytes \<open>src[0x1000..0x10ff]\<close> are the 256 bytes compared, the count is 0
  against \<open>0xaa\<close> and 256 against \<open>0xbb\<close>. The range is a single chunk.
\<close>

lemma verify_mem_spec_example:
  assumes "\<And>a. 0x1000 \<le> a \<Longrightarrow> a \<le> 0x10ff \<Longrightarrow> bus s a = 0xaa"
  shows "verify_mem s 0x1000 0x10ff (\<lambda>k. 0xaa) log = Some (0, [])"
    and "verify_mem s 0x1000 0x10ff (\<lambda>k. 0xbb) False = Some (256, [])"
proof -
  have len: "length (read_mem s 0x1000 256) = 256"
    by (simp add: read_mem_def load_bytes_def)
  have aa: "b = 0xaa" if "b \<in> set (read_mem s 0x1000 256)" for b
  proof -
    from that obtain k where k: "k < 256" and b: "b = bus s (0x1000 + of_nat k)"
      by (auto simp: read_mem_def load_bytes_def)
    have "unat (0x1000 + of_nat k :: u16) = 0x1000 + k"
      using k by (simp add: unat_word_ariths unat_of_nat)
    then have "(0x1000 :: u16) \<le> 0x1000 + of_nat k" "(0x1000 + of_nat k :: u16) \<le> 0x10ff"
      using k by (simp_all add: word_le_nat_alt)
    then show ?thesis
      using assms b by simp
  qed
  have c1: "verify_chunk 0x1000 (\<lambda>k. 0xaa) log (read_mem s 0x1000 256) 0x1000 0 []
      = (0x1100, 0, [])"
    using verify_chunk_equal [where buf = "read_mem s 0x1000 256" and c = "0xaa"
        and src = "\<lambda>k. 0xaa" and start = "0x1000" and log = log and i = "0x1000" and errors = 0
        and out = "[]"] aa
    by (simp add: len)
  have "b \<noteq> 0xbb" if "b \<in> set (read_mem s 0x1000 256)" for b
    using aa [OF that] by simp
  then have c2: "verify_chunk 0x1000 (\<lambda>k. 0xbb) False (read_mem s 0x1000 256) 0x1000 0 []
      = (0x1100, 256, [])"
    using verify_chunk_differ [where buf = "read_mem s 0x1000 256" and c = "0xbb"
        and src = "\<lambda>k. 0xbb" and start = "0x1000" and i = "0x1000" and errors = 0 and out = "[]"]
    by (simp add: len)
  have stop: "verify_loop s 0x1000 0x10ff src lg 256 0x1100 n [] = Some (n, [])" for src lg n
    by (subst verify_loop.simps) simp
  show "verify_mem s 0x1000 0x10ff (\<lambda>k. 0xaa) log = Some (0, [])"
    unfolding verify_mem_def by (subst verify_loop.simps) (simp add: Let_def c1 stop)
  show "verify_mem s 0x1000 0x10ff (\<lambda>k. 0xbb) False = Some (256, [])"
    unfolding verify_mem_def by (subst verify_loop.simps) (simp add: Let_def c2 stop)
qed

text \<open>
  A range of 257 bytes, \<open>0..0x100\<close>, where the memory differs from the reference at the last
  address only: the second round reads its one byte at \<open>start\<close> again, not at \<open>0x100\<close>, and the
  difference is not counted.
\<close>

lemma verify_second_chunk_rereads_start:
  "verify_mem \<lparr>bus = (\<lambda>a. if a = 0x100 then 1 else 0), vram = (\<lambda>a. 0), console = []\<rparr>
      0 0x100 (\<lambda>k. 0) True = Some (0, [])"
proof -
  define s where "s = \<lparr>bus = (\<lambda>a :: u16. if a = 0x100 then 1 else 0 :: u8),
    vram = (\<lambda>a. 0), console = []\<rparr>"
  have len: "length (read_mem s a n) = unat n" for a n
    by (simp add: read_mem_def load_bytes_def)
  have first: "b = 0" if "b \<in> set (read_mem s 0 256)" for b
    using that of_nat_neq_0x100 by (auto simp: read_mem_def load_bytes_def s_def)
  have second: "b = 0" if "b \<in> set (read_mem s 0 1)" for b
    using that by (auto simp: read_mem_def load_bytes_def s_def)
  have c1: "verify_chunk 0 (\<lambda>k. 0) True (read_mem s 0 256) 0 0 [] = (256, 0, [])"
    using verify_chunk_equal [of "read_mem s 0 256" 0 "\<lambda>k. 0" 0 True 0 0 "[]"] first
    by (simp add: len)
  have c2: "verify_chunk 0 (\<lambda>k. 0) True (read_mem s 0 1) 256 0 [] = (257, 0, [])"
    using verify_chunk_equal [of "read_mem s 0 1" 0 "\<lambda>k. 0" 0 True 256 0 "[]"] second
    by (simp add: len)
  have r3: "verify_loop s 0 0x100 (\<lambda>k. 0) True 1 257 0 [] = Some (0, [])"
    by (subst verify_loop.simps) simp
  have r2: "verify_loop s 0 0x100 (\<lambda>k. 0) True 256 256 0 [] = Some (0, [])"
    by (subst verify_loop.simps) (simp add: Let_def c2 r3)
  have r1: "verify_loop s 0 0x100 (\<lambda>k. 0) True 256 0 0 [] = Some (0, [])"
    by (subst verify_loop.simps) (simp add: Let_def c1 r2)
  show ?thesis
    using r1 by (simp add: verify_mem_def s_def)
qed

text \<open>
  A range of one byte at \<open>0x1000\<close> that differs: the logged address is \<open>start + i = 0x2000\<close>.
\<close>

lemma verify_logs_start_plus_i:
  "verify_mem \<lparr>bus = (\<lambda>a. if a = 0x1000 then 1 else 0), vram = (\<lambda>a. 0), console = []\<rparr>
      0x1000 0x1000 (\<lambda>k. 0) True = Some (1, [Mismatch 0x2000 0 1])"
proof -
  define s where "s = \<lparr>bus = (\<lambda>a :: u16. if a = 0x1000 then 1 else 0 :: u8),
    vram = (\<lambda>a. 0), console = []\<rparr>"
  have b: "read_mem s 0x1000 1 = [1]"
    by (simp add: read_mem_def load_bytes_def s_def)
  have r2: "verify_loop s 0x1000 0x1000 (\<lambda>k. 0) True 1 0x1001 1 [Mismatch 0x2000 0 1]
      = Some (1, [Mismatch 0x2000 0 1])"
    by (subst verify_loop.simps) simp
  have r1: "verify_loop s 0x1000 0x1000 (\<lambda>k. 0) True 256 0x1000 0 []
      = Some (1, [Mismatch 0x2000 0 1])"
    by (subst verify_loop.simps) (simp add: Let_def b r2)
  show ?thesis
    using r1 by (simp add: verify_mem_def s_def)
qed

text \<open>
  C2, at \<open>verify_mem(0, 0x100, src, 1)\<close> and at \<open>verify_mem(0x1000, 0x1000, src, 1)\<close> with a
  reference of zero bytes. The claim: the result is the number of addresses in
  \<open>[start, end]\<close> where the target byte differs from \<open>src\<close>, and each mismatch is logged with
  its address. The code: in the first call the bus memory differs from the reference at
  address \<open>0x100\<close> (one mismatch), and the result is 0; in the second call the one mismatch
  at address \<open>0x1000\<close> is logged with the address \<open>0x2000\<close>.
\<close>

theorem verify_mem_miscounts_and_mislabels:
  "verify_mem \<lparr>bus = (\<lambda>a. if a = 0x100 then 1 else 0), vram = (\<lambda>a. 0), console = []\<rparr>
      0 0x100 (\<lambda>k. 0) True = Some (0, []) \<and>
   verify_mem \<lparr>bus = (\<lambda>a. if a = 0x1000 then 1 else 0), vram = (\<lambda>a. 0), console = []\<rparr>
      0x1000 0x1000 (\<lambda>k. 0) True = Some (1, [Mismatch 0x2000 0 1])"
  using verify_second_chunk_rereads_start verify_logs_start_plus_i by simp

subsection \<open>break and watch\<close>

lemma hex_3: "hex ''3'' = 3"
  by (simp add: hex_def digit_val_def)

lemma hex_5: "hex ''5'' = 5"
  by (simp add: hex_def digit_val_def)

lemma hex_20000: "hex ''20000'' = 0x20000"
  by (simp add: hex_def digit_val_def)

lemma hex_1fffe: "hex ''1fffe'' = 0x1fffe"
  by (simp add: hex_def digit_val_def)

lemma range_ok_sentinel: "range_ok sentinel"
  by (simp add: range_ok_def)

lemma list_all_update: "list_all P xs \<Longrightarrow> P x \<Longrightarrow> list_all P (xs[i := x])"
  by (induction xs arbitrary: i) (auto split: nat.splits)

lemma list_all_fold_update:
  "list_all P xs \<Longrightarrow> P x \<Longrightarrow> list_all P (fold (\<lambda>i rs. rs[i := x]) is xs)"
  by (induction "is" arbitrary: xs) (simp_all add: list_all_update)

lemma cli_breakwatch_ok:
  assumes ok: "registry_ok reg"
    and ord: "sets_both_addresses debug_names argv \<longrightarrow>
      (ucast (strtoul16 (argv ! 2)) :: u16) \<le> ucast (strtoul16 (argv ! 3))"
  shows "registry_ok (cli_breakwatch debug_names strtoul16 argv reg)"
proof -
  have b: "list_all range_ok (breaks reg)" and w: "list_all range_ok (watches reg)"
    using ok by (simp_all add: registry_ok_def)
  have full: "range_ok \<lparr>range_start = 0, range_end = 0xffff\<rparr>"
    by (simp add: range_ok_def)
  have single: "range_ok \<lparr>range_start = a, range_end = a\<rparr>" for a
    by (simp add: range_ok_def)
  have pair: "range_ok \<lparr>range_start = ucast (strtoul16 (argv ! 2)),
      range_end = ucast (strtoul16 (argv ! 3))\<rparr>"
    if "4 \<le> length argv" "argv ! 1 \<noteq> ''off''"
      "find_type debug_names (argv ! 1) \<noteq> length debug_names" "argv ! 2 \<noteq> ''off''"
    using ord that by (simp add: range_ok_def sets_both_addresses_def)
  show ?thesis
    using b w full single pair
    by (auto simp: cli_breakwatch_def Let_def registry_ok_def range_ok_sentinel
        list_all_update list_all_fold_update)
qed

text \<open>
  C5 as the claim states it fails: the handler stores the two addresses of the command
  line (their low 16 bits) without comparing them. From a registry of sentinels, \<open>break memrd 5 3\<close> leaves the pair
  \<open>(start = 5, end = 3)\<close>, which is neither enabled nor the sentinel. (The name table has the
  one name \<open>memrd\<close> here; any table and any name in it do.)
\<close>

theorem breakwatch_inverted_pair_counterexample:
  "registry_ok \<lparr>breaks = [sentinel], watches = [sentinel]\<rparr> \<and>
   breakwatch_session [''memrd''] hex [[''break'', ''memrd'', ''5'', ''3'']]
       \<lparr>breaks = [sentinel], watches = [sentinel]\<rparr>
     = \<lparr>breaks = [\<lparr>range_start = 5, range_end = 3\<rparr>], watches = [sentinel]\<rparr> \<and>
   \<not> registry_ok (breakwatch_session [''memrd''] hex [[''break'', ''memrd'', ''5'', ''3'']]
       \<lparr>breaks = [sentinel], watches = [sentinel]\<rparr>)"
  by (simp add: breakwatch_session_def cli_breakwatch_def Let_def registry_ok_def range_ok_def
      sentinel_def hex_3 hex_5)

text \<open>
  C5, amended: from a registry in which every range is enabled with \<open>start <= end\<close> or is
  the sentinel, after any sequence of break and watch commands in which every set
  operation with an end address (a command line on which the handler assigns both
  \<open>start\<close> and \<open>end\<close> from the line) stores a pair with \<open>start <= end\<close>, the two values stored
  being the low 16 bits of the parsed addresses, every range is again enabled with
  \<open>start <= end\<close> or is the sentinel. No other command line is constrained.
\<close>

theorem breakwatch_invariant:
  assumes "registry_ok reg"
    and "\<forall>argv \<in> set cmds. sets_both_addresses debug_names argv \<longrightarrow>
      (ucast (strtoul16 (argv ! 2)) :: u16) \<le> ucast (strtoul16 (argv ! 3))"
  shows "registry_ok (breakwatch_session debug_names strtoul16 cmds reg)"
  using assms unfolding breakwatch_session_def
proof (induction cmds arbitrary: reg)
  case Nil
  then show ?case by simp
next
  case (Cons argv cmds)
  have "registry_ok (cli_breakwatch debug_names strtoul16 argv reg)"
    using Cons.prems by (intro cli_breakwatch_ok) simp_all
  then show ?case
    using Cons.IH Cons.prems(2) by simp
qed

theorem breakwatch_invariant_witness:
  "registry_ok \<lparr>breaks = [sentinel], watches = [sentinel]\<rparr> \<and>
   (ucast (hex ''3'') :: u16) \<le> ucast (hex ''5'') \<and>
   (ucast (hex ''20000'') :: u16) \<le> ucast (hex ''1fffe'') \<and>
   registry_ok (breakwatch_session [''memrd''] hex
      [[''break'', ''memrd'', ''3'', ''5''], [''watch'', ''memrd''], [''break'', ''off'', ''5'', ''3''],
       [''watch'', ''memrd'', ''20000'', ''1fffe'']]
      \<lparr>breaks = [sentinel], watches = [sentinel]\<rparr>)"
proof (intro conjI)
  show ok: "registry_ok \<lparr>breaks = [sentinel], watches = [sentinel]\<rparr>"
    by (simp add: registry_ok_def range_ok_def)
  show "(ucast (hex ''3'') :: u16) \<le> ucast (hex ''5'')"
    by (simp add: hex_3 hex_5)
  show "(ucast (hex ''20000'') :: u16) \<le> ucast (hex ''1fffe'')"
    by (simp add: hex_20000 hex_1fffe)
  have ord: "\<forall>argv \<in> set [[''break'', ''memrd'', ''3'', ''5''], [''watch'', ''memrd''],
        [''break'', ''off'', ''5'', ''3''], [''watch'', ''memrd'', ''20000'', ''1fffe'']].
      sets_both_addresses [''memrd''] argv \<longrightarrow>
        (ucast (hex (argv ! 2)) :: u16) \<le> ucast (hex (argv ! 3))"
    by (simp add: sets_both_addresses_def hex_3 hex_5 hex_20000 hex_1fffe)
  show "registry_ok (breakwatch_session [''memrd''] hex
      [[''break'', ''memrd'', ''3'', ''5''], [''watch'', ''memrd''], [''break'', ''off'', ''5'', ''3''],
       [''watch'', ''memrd'', ''20000'', ''1fffe'']]
      \<lparr>breaks = [sentinel], watches = [sentinel]\<rparr>)"
    by (rule breakwatch_invariant [OF ok ord])
qed

text \<open>
  The session of the witness ends with the break range disabled and the watch range
  \<open>0x0000..0xfffe\<close>: \<open>break off 5 3\<close> is no set operation, and of \<open>20000\<close> and \<open>1fffe\<close> the low 16
  bits are stored.
\<close>

lemma breakwatch_session_example:
  "breakwatch_session [''memrd''] hex
      [[''break'', ''memrd'', ''3'', ''5''], [''watch'', ''memrd''], [''break'', ''off'', ''5'', ''3''],
       [''watch'', ''memrd'', ''20000'', ''1fffe'']]
      \<lparr>breaks = [sentinel], watches = [sentinel]\<rparr>
     = \<lparr>breaks = [sentinel], watches = [\<lparr>range_start = 0, range_end = 0xfffe\<rparr>]\<rparr>"
  by (simp add: breakwatch_session_def cli_breakwatch_def Let_def hex_3 hex_5 hex_20000 hex_1fffe)

subsection \<open>Command files\<close>

text \<open>
  C8 as the claim states it fails: the suppression looks at the result code and the file
  name only, so \<open>do autoexec.z8c\<close> with the file missing prints nothing.
\<close>

theorem do_autoexec_not_found_silent_counterexample:
  "cli_do (\<lambda>name. FR_NO_FILE) (\<lambda>name. []) (\<lambda>name. FR_OK) [''do'', ''autoexec.z8c''] = []"
  by (simp add: cli_do_def cli_exec_def AUTOEXEC_def)

text \<open>
  C8, amended: when a command file fails to open, at the start of the program or on
  \<open>do <file>\<close>, the failure is reported, unless the failure is file-not-found and the file
  name is \<open>autoexec.z8c\<close>: then nothing is printed, on \<open>do autoexec.z8c\<close> as well.
\<close>

theorem open_failure_report:
  assumes "f_open filename \<noteq> FR_OK"
  shows "cli_do f_open fgets_of f_close [''do'', filename]
           = (if f_open filename = FR_NO_FILE \<and> filename = AUTOEXEC then []
              else [Say (Open_error (f_open filename))]) \<and>
         cli_exec f_open fgets_of f_close filename
           = (if f_open filename = FR_NO_FILE \<and> filename = AUTOEXEC then []
              else [Say (Open_error (f_open filename))])"
  using assms by (auto simp: cli_do_def cli_exec_def Let_def)

theorem open_failure_report_witness:
  "cli_do (\<lambda>name. FR_NO_FILE) (\<lambda>name. []) (\<lambda>name. FR_OK) [''do'', ''boot.z8c'']
     = [Say (Open_error FR_NO_FILE)] \<and>
   cli_exec (\<lambda>name. FR_NO_FILE) (\<lambda>name. []) (\<lambda>name. FR_OK) ''boot.z8c''
     = [Say (Open_error FR_NO_FILE)]"
  using open_failure_report [of "\<lambda>name. FR_NO_FILE" "''boot.z8c''" "\<lambda>name. []" "\<lambda>name. FR_OK"]
  by (simp add: AUTOEXEC_def)

text \<open>The attempt at the start of the program: a missing \<open>autoexec.z8c\<close> is not reported.\<close>

lemma main_autoexec_not_found_silent:
  "f_open AUTOEXEC = FR_NO_FILE \<Longrightarrow> main_autoexec f_open fgets_of f_close = []"
  by (simp add: main_autoexec_def cli_exec_def)

subsection \<open>poke\<close>

lemma hex_41: "hex ''41'' = 0x41"
  by (simp add: hex_def digit_val_def)

text \<open>
  C9, at the command line \<open>poke\<close> (one token). The claim: a usage message is printed and the
  command is aborted without reading or writing memory. The code: after the usage message
  the handler goes on, takes an address from \<open>strtoul\<close> of the null pointer \<open>argv[1]\<close>, and
  enters the interactive loop: with no input it reads memory at that address for the
  prompt, and with the input line \<open>41\<close> it writes \<open>0x41\<close> there (address 0 when \<open>strtoul\<close>
  yields 0 for the null pointer).
\<close>

theorem poke_without_address_reads_and_writes:
  "cli_poke strtoul16 strtoul16_end [''poke''] [] mem =
     (mem, [Printed (Usage ''poke <start> [value]''),
            Printed (Text ''enter valid hex to replace; blank to leave unchanged; x to exit.''),
            Mem_read (ucast (strtoul16 None AND 0xffff)),
            Printed (Poke_prompt (ucast (strtoul16 None AND 0xffff))
                       (mem (ucast (strtoul16 None AND 0xffff))))]) \<and>
   cli_poke (\<lambda>a. case a of None \<Rightarrow> 0 | Some b \<Rightarrow> hex b) (\<lambda>buf. (hex buf, length buf))
       [''poke''] [''41''] (\<lambda>a. 0) =
     ((\<lambda>a. 0)(0 := 0x41),
      [Printed (Usage ''poke <start> [value]''),
       Printed (Text ''enter valid hex to replace; blank to leave unchanged; x to exit.''),
       Mem_read 0, Printed (Poke_prompt 0 0), Mem_write 0 0x41,
       Mem_read 1, Printed (Poke_prompt 1 0)])"
  by (simp add: cli_poke_def arg_def Let_def hex_41 store_bytes_def)

subsection \<open>dump\<close>

lemma unat_ucast_u16: "unat (ucast (e :: u16) :: u32) = unat e"
  using unsigned_less [of e, where 'a = nat]
  by (simp add: unsigned_ucast_eq take_bit_nat_eq_self)

lemma unat_u16_less: "unat (e :: u16) < 65536"
  using unsigned_less [of e, where 'a = nat] by simp

lemma dump_index_step:
  fixes i :: u32 and e :: u16
  assumes "i \<le> ucast e"
  shows "unat (i + 16) = unat i + 16"
proof -
  have "unat i < 65536"
    using assms unat_u16_less [of e] by (simp add: word_le_nat_alt unat_ucast_u16)
  then show ?thesis
    by (simp add: unat_word_ariths)
qed

text \<open>
  The rows of a dump: one row of 16 bytes at \<open>start\<close>, \<open>start + 16\<close>, ... for every such address
  up to \<open>end\<close>.
\<close>

lemma dump_loop_rows:
  "i \<le> ucast end \<Longrightarrow>
     dump_loop s tms i end
       = map (\<lambda>k. dump_row s tms (i + 16 * of_nat k)) [0..<(unat end - unat i) div 16 + 1]"
proof (induction s tms i "end" rule: dump_loop.induct)
  case (1 s tms i "end")
  have step: "unat (i + 16) = unat i + 16"
    using "1.prems" by (rule dump_index_step)
  have le: "unat i \<le> unat end"
    using "1.prems" by (simp add: word_le_nat_alt unat_ucast_u16)
  have unfold: "dump_loop s tms i end = dump_row s tms i # dump_loop s tms (i + 16) end"
    using "1.prems" by (subst dump_loop.simps) simp
  show ?case
  proof (cases "i + 16 \<le> ucast end")
    case True
    then have le16: "unat i + 16 \<le> unat end"
      using step by (simp add: word_le_nat_alt unat_ucast_u16)
    define m where "m = (unat end - unat (i + 16)) div 16 + 1"
    have "unat end - unat i = (unat end - (unat i + 16)) + 16"
      using le16 by simp
    then have "(unat end - unat i) div 16 = (unat end - (unat i + 16)) div 16 + 1"
      by (simp only: div_add_self2)
    then have n: "(unat end - unat i) div 16 + 1 = Suc m"
      using step unfolding m_def by simp
    have "dump_loop s tms (i + 16) end
        = map (\<lambda>k. dump_row s tms (i + 16 + 16 * of_nat k)) [0..<m]"
      using "1.IH" [OF "1.prems" True] unfolding m_def .
    also have "\<dots> = map (\<lambda>k. dump_row s tms (i + 16 * of_nat k)) (map Suc [0..<m])"
      by (simp add: algebra_simps)
    finally have "dump_loop s tms i end
        = map (\<lambda>k. dump_row s tms (i + 16 * of_nat k)) (0 # map Suc [0..<m])"
      using unfold by simp
    also have "0 # map Suc [0..<m] = [0..<Suc m]"
      by (simp add: map_Suc_upt upt_conv_Cons del: upt_Suc)
    finally show ?thesis
      unfolding n .
  next
    case False
    then have "unat end - unat i < 16"
      using step by (simp add: word_le_nat_alt unat_ucast_u16)
    moreover from False have "dump_loop s tms (i + 16) end = []"
      by (subst dump_loop.simps) simp
    ultimately show ?thesis
      using unfold by simp
  qed
qed

lemma dump_row_bytes:
  "dump_row s tms i =
     Dump_row i (load_bytes (if tms then vram s else bus s) (ucast i) 16)
       (map printable (load_bytes (if tms then vram s else bus s) (ucast i) 16))"
  by (simp add: dump_row_def read_mem_def tms_read_def Let_def)

text \<open>The address of a row, as a number: no wrap-around in the 32-bit index \<open>i\<close>.\<close>

lemma hex_10: "hex ''10'' = 0x10"
  by (simp add: hex_def digit_val_def)

lemma hex_25: "hex ''25'' = 0x25"
  by (simp add: hex_def digit_val_def)

lemma unat_row_address:
  fixes start :: u16
  assumes "q < 4096"
  shows "unat (ucast start + 16 * of_nat q :: u32) = unat start + 16 * q"
proof -
  have s: "unat (ucast start :: u32) = unat start"
    by (rule unat_ucast_u16)
  have lt: "unat start < 65536"
    by (rule unat_u16_less)
  have q: "unat (of_nat q :: u32) = q"
    using assms by (simp add: unat_of_nat)
  have "unat (16 :: u32) * unat (of_nat q :: u32) < 2 ^ LENGTH(32)"
    using assms by (simp add: q)
  then have "unat ((16 :: u32) * of_nat q) = unat (16 :: u32) * unat (of_nat q :: u32)"
    by (simp only: unat_mult_lem)
  then have m: "unat ((16 :: u32) * of_nat q) = 16 * q"
    by (simp add: q)
  have "unat (ucast start :: u32) + unat ((16 :: u32) * of_nat q) < 2 ^ LENGTH(32)"
    using lt assms by (simp add: s m)
  then have "unat (ucast start + 16 * of_nat q :: u32)
      = unat (ucast start :: u32) + unat ((16 :: u32) * of_nat q)"
    by (simp only: unat_add_lem)
  then show ?thesis
    by (simp add: s m)
qed

text \<open>
  C10: for every command line \<open>dump <start> [end]\<close> or \<open>tmsdump <start> [end]\<close> with
  \<open>start <= end\<close> (\<open>end\<close> is \<open>start + 0xff\<close> when it is not given), the handler prints the header
  and then whole rows only: one row for each of the addresses \<open>start\<close>, \<open>start + 16\<close>, ... up
  to \<open>end\<close>, each holding the row address, the 16 bytes read from the target at that address
  (addresses wrap modulo \<open>2 ^ 16\<close>), and the same 16 bytes as characters. The final row
  begins at or below \<open>end\<close>; when the length \<open>end - start + 1\<close> is not a multiple of 16, \<open>end\<close>
  lies below the final row's last address, so between 1 and 15 of the 16 bytes that this
  row reads from the target and displays lie beyond \<open>end\<close>.
\<close>

theorem cli_dump_whole_rows:
  assumes argc: "2 \<le> length argv"
    and start: "start = ucast (strtoul16 (argv ! 1) AND 0xffff)"
    and "end": "end = (if length argv < 3 then start + 0xff
                     else ucast (strtoul16 (argv ! 2) AND 0xffff))"
    and le: "start \<le> end"
    and mem: "mem = (if argv ! 0 = ''tmsdump'' then vram s else bus s)"
    and q: "q = (unat end - unat start) div 16"
  shows "cli_dump strtoul16 argv s
           = Dump_header start end
               # map (\<lambda>k. Dump_row (ucast start + 16 * of_nat k)
                          (load_bytes mem (ucast (ucast start + 16 * of_nat k :: u32)) 16)
                          (map printable
                             (load_bytes mem (ucast (ucast start + 16 * of_nat k :: u32)) 16)))
                   [0..<q + 1] \<and>
         unat (ucast start + 16 * of_nat q :: u32) = unat start + 16 * q \<and>
         unat (ucast start + 16 * of_nat q :: u32) \<le> unat end \<and>
         ((unat end - unat start + 1) mod 16 \<noteq> 0
            \<longrightarrow> unat end < unat (ucast start + 16 * of_nat q :: u32) + 15)"
proof -
  have ule: "unat start \<le> unat end"
    using le by (simp add: word_le_nat_alt)
  have "(ucast start :: u32) \<le> ucast end"
    using ule by (simp add: word_le_nat_alt unat_ucast_u16)
  then have rows: "dump_loop s (argv ! 0 = ''tmsdump'') (ucast start) end
      = map (\<lambda>k. dump_row s (argv ! 0 = ''tmsdump'') (ucast start + 16 * of_nat k)) [0..<q + 1]"
    unfolding q using dump_loop_rows [of "ucast start" "end" s "argv ! 0 = ''tmsdump''"]
    by (simp add: unat_ucast_u16)
  have row: "dump_row s (argv ! 0 = ''tmsdump'') i
      = Dump_row i (load_bytes mem (ucast i) 16) (map printable (load_bytes mem (ucast i) 16))" for i
    unfolding mem by (rule dump_row_bytes)
  have "cli_dump strtoul16 argv s
      = Dump_header start end # dump_loop s (argv ! 0 = ''tmsdump'') (ucast start) end"
    using argc unfolding start "end" by (simp add: cli_dump_def Let_def)
  then have out: "cli_dump strtoul16 argv s
      = Dump_header start end
          # map (\<lambda>k. Dump_row (ucast start + 16 * of_nat k)
                     (load_bytes mem (ucast (ucast start + 16 * of_nat k :: u32)) 16)
                     (map printable
                        (load_bytes mem (ucast (ucast start + 16 * of_nat k :: u32)) 16)))
              [0..<q + 1]"
    by (simp only: rows row)
  have "unat end < 65536"
    by (rule unat_u16_less)
  then have "q < 4096"
    unfolding q by simp
  then have addr: "unat (ucast start + 16 * of_nat q :: u32) = unat start + 16 * q"
    by (rule unat_row_address)
  define d where "d = unat end - unat start"
  have e: "unat end = unat start + d"
    using ule unfolding d_def by simp
  have qd: "q = d div 16"
    unfolding q d_def ..
  have below: "unat start + 16 * q \<le> unat end"
    unfolding e qd by simp
  have beyond: "unat end < unat start + 16 * q + 15" if "(unat end - unat start + 1) mod 16 \<noteq> 0"
  proof -
    have "(d + 1) mod 16 \<noteq> 0"
      using that unfolding d_def .
    then have "d mod 16 \<noteq> 15"
      by presburger
    then have "d < 16 * (d div 16) + 15"
      by presburger
    then show ?thesis
      unfolding e qd by simp
  qed
  show ?thesis
    using out addr below beyond by simp
qed

theorem cli_dump_whole_rows_witness:
  "cli_dump hex [''dump'', ''10'', ''25''] \<lparr>bus = (\<lambda>a. 0x41), vram = (\<lambda>a. 0), console = []\<rparr>
     = [Dump_header 0x10 0x25,
        Dump_row 0x10 (replicate 16 0x41) (replicate 16 CHR ''A''),
        Dump_row 0x20 (replicate 16 0x41) (replicate 16 CHR ''A'')] \<and>
   unat (0x20 :: u32) \<le> unat (0x25 :: u16) \<and> unat (0x25 :: u16) < unat (0x20 :: u32) + 15"
proof -
  have a: "(2 :: nat) \<le> length [''dump'', ''10'', ''25'']"
    by simp
  have b: "(0x10 :: u16) = ucast (hex ([''dump'', ''10'', ''25''] ! 1) AND 0xffff)"
    by (simp add: hex_10)
  have c: "(0x25 :: u16) = (if length [''dump'', ''10'', ''25''] < 3 then 0x10 + 0xff
      else ucast (hex ([''dump'', ''10'', ''25''] ! 2) AND 0xffff))"
    by (simp add: hex_25)
  have d: "(0x10 :: u16) \<le> 0x25"
    by simp
  have m: "(\<lambda>a :: u16. 0x41 :: u8) = (if [''dump'', ''10'', ''25''] ! 0 = ''tmsdump''
      then vram \<lparr>bus = (\<lambda>a. 0x41), vram = (\<lambda>a. 0), console = []\<rparr>
      else bus \<lparr>bus = (\<lambda>a. 0x41), vram = (\<lambda>a. 0), console = []\<rparr>)"
    by simp
  have q: "(1 :: nat) = (unat (0x25 :: u16) - unat (0x10 :: u16)) div 16"
    by simp
  have r: "(unat (0x25 :: u16) - unat (0x10 :: u16) + 1) mod 16 \<noteq> 0"
    by simp
  have lb: "load_bytes (\<lambda>a. 0x41) a 16 = replicate 16 0x41" for a :: u16
    by (simp add: load_bytes_def map_replicate_const)
  have pr: "printable 0x41 = CHR ''A''"
    by code_simp
  have u: "[0..<(1 :: nat) + 1] = [0, 1]"
    by (simp add: upt_rec)
  have a20: "(0x10 :: u32) + 16 = 0x20"
    by simp
  show ?thesis
    using cli_dump_whole_rows [OF a b c d m q] r
    by (simp add: lb pr u a20)
qed

text \<open>With \<open>start > end\<close> the handler prints the header and no row: nothing is read.\<close>

lemma cli_dump_inverted_range:
  assumes "2 \<le> length argv"
    and "start = ucast (strtoul16 (argv ! 1) AND 0xffff)"
    and "end = (if length argv < 3 then start + 0xff
                else ucast (strtoul16 (argv ! 2) AND 0xffff))"
    and "end < start"
  shows "cli_dump strtoul16 argv s = [Dump_header start end]"
proof -
  have "\<not> (ucast start :: u32) \<le> ucast end"
    using assms(4) by (simp add: word_le_nat_alt word_less_nat_alt unat_ucast_u16)
  then have "dump_loop s (argv ! 0 = ''tmsdump'') (ucast start) end = []"
    by (subst dump_loop.simps) simp
  moreover have "cli_dump strtoul16 argv s
      = Dump_header start end # dump_loop s (argv ! 0 = ''tmsdump'') (ucast start) end"
    using assms(1) unfolding assms(2,3) by (simp add: cli_dump_def Let_def)
  ultimately show ?thesis
    by simp
qed

end
